theory Spec2Isabelle
  imports Main
begin

section \<open>The reactive store of the todo application\<close>

text \<open>
  This theory embeds \<^verbatim>\<open>StoreService<T>\<close> and its specialisation
  \<^verbatim>\<open>TodoService\<close> (file \<^verbatim>\<open>src/app/services/todo.service.ts\<close>, which
  also carries \<^verbatim>\<open>store.service.ts\<close> and \<^verbatim>\<open>todo.model.ts\<close>).

  Conventions of the embedding:
  \<^item> A method \<^verbatim>\<open>m(args)\<close> of the service is a function \<open>m s args\<close> from the
    service's state \<open>s\<close> to the state after the call.
  \<^item> The array held by \<^verbatim>\<open>itemsSubject\<close> is shared with every observer of
    \<^verbatim>\<open>items$\<close>, and the code writes into it. Arrays therefore live in an explicit
    store: \<open>heap\<close> maps an address to the array's contents, and subjects and
    events carry addresses.
  \<^item> Observers read the arrays they are handed and do not write into them. (The list
    component sorts the array it receives in place; it is a consumer of the service and
    is not part of this development.)
  \<^item> Entities are values. The service writes into an entity in one place only
    (\<^verbatim>\<open>todo.id = this.getNextId()\<close> in \<^verbatim>\<open>addTodo\<close>, on its own argument),
    which is a functional update of the argument.
  \<^item> A remote call is asynchronous. The part of a method that runs at the call is the
    function of the method's name; the operators of its \<^verbatim>\<open>pipe\<close> and the callback of
    its \<^verbatim>\<open>subscribe\<close>, which run when the response arrives, are the function
    \<open>m_response\<close>. The response is a value \<open>http_error + 'a\<close>, \<open>Inl\<close> the failure.
  \<^item> JavaScript numbers are integers here (identifiers, pages, the counter
    \<^verbatim>\<open>nextId\<close>). The one arithmetic operation of the code, the increment of the
    counter, is the addition of binary64 floating-point numbers: it is exact up to
    \<open>2 ^ 53\<close> and rounds beyond.
\<close>

subsection \<open>Values\<close>

text \<open>
  The values an identifier can take at run time: \<^verbatim>\<open>string | number\<close> by its type,
  and \<^verbatim>\<open>null\<close> or \<^verbatim>\<open>undefined\<close>, which the code of \<^verbatim>\<open>get\<close> tests for.
  Equality of the datatype is JavaScript's \<^verbatim>\<open>===\<close> on these values.
\<close>

datatype js_id = JNull | JUndefined | JNum int | JStr string

text \<open>The entity \<^verbatim>\<open>Todo\<close> of \<^verbatim>\<open>todo.model.ts\<close> (fields \<^verbatim>\<open>id\<close>, \<^verbatim>\<open>completed\<close>,
  \<^verbatim>\<open>text\<close>; the first and the last are renamed, \<open>id\<close> and \<open>text\<close> being taken).\<close>

record todo =
  id_t :: js_id
  completed :: bool
  text_t :: string

definition uniqueId :: "todo \<Rightarrow> js_id" where
  "uniqueId t = id_t t"

text \<open>\<^verbatim>\<open>new Todo()\<close>: the constructor sets \<^verbatim>\<open>completed\<close> and \<^verbatim>\<open>text\<close> and leaves
  \<^verbatim>\<open>id\<close> undefined.\<close>

definition new_Todo :: todo where
  "new_Todo = \<lparr>id_t = JUndefined, completed = False, text_t = ''''\<rparr>"

text \<open>\<^verbatim>\<open>StoreSettings\<close>: the resource's URL and the name used in messages.\<close>

record store_settings =
  url :: string
  itemName :: string

text \<open>\<^verbatim>\<open>HttpErrorResponse\<close>, opaque to the service: it is passed on as received.\<close>

datatype http_error = HttpErrorResponse (status: int) (statusText: string)

subsection \<open>Strings of template literals\<close>

definition digit_char :: "nat \<Rightarrow> char" where
  "digit_char d = char_of (48 + d)"

function digits :: "nat \<Rightarrow> string" where
  "digits n = (if n < 10 then [digit_char n] else digits (n div 10) @ [digit_char (n mod 10)])"
  by pat_completeness auto
termination
  by (relation "measure (\<lambda>n. n)") auto

declare digits.simps [simp del]

text \<open>The string of an integer number in a template literal: its decimal digits
  (as JavaScript prints an integer of magnitude below \<open>10 ^ 21\<close>).\<close>

definition number_to_string :: "int \<Rightarrow> string" where
  "number_to_string i = (if i < 0 then CHR ''-'' # digits (nat (- i)) else digits (nat i))"

text \<open>\<^verbatim>\<open>${id}\<close> in a template literal.\<close>

fun to_string :: "js_id \<Rightarrow> string" where
  "to_string JNull = ''null''"
| "to_string JUndefined = ''undefined''"
| "to_string (JNum n) = number_to_string n"
| "to_string (JStr s) = s"

subsection \<open>The state of the service\<close>

text \<open>Every \<^verbatim>\<open>next\<close> on a subject of the service, in the order of the calls. The
  event of \<^verbatim>\<open>itemsSubject\<close> carries the address of the array it hands to the observers.\<close>

datatype event =
    Items_next nat
  | Selected_next "todo option"
  | Loading_next bool
  | LoadError_next http_error
  | GetError_next http_error
  | Deleting_next bool
  | DeleteSuccess_next todo
  | UpdateSuccess_next todo
  | CreateSuccess_next todo
  | NoLoadResults_next

datatype http_method = GET | POST | PUT | DELETE

record request =
  verb :: http_method
  target :: string
  payload :: "todo option"

text \<open>
  The fields of \<^verbatim>\<open>StoreService\<close> and \<^verbatim>\<open>TodoService\<close>. A \<^verbatim>\<open>BehaviorSubject\<close> is its
  current value; \<open>emitted\<close> is the log of all \<^verbatim>\<open>next\<close> calls; \<open>http\<close> is the log of
  the requests handed to \<^verbatim>\<open>HttpClient\<close>; \<open>uncaught\<close> collects the errors of
  \<^verbatim>\<open>throwError\<close>, which reach a subscriber that has no error callback.
\<close>

record store =
  settings :: store_settings
  heap :: "nat \<Rightarrow> todo list"
  next_addr :: nat
  itemsSubject :: nat
  selectedSubject :: "todo option"
  loadingSubject :: bool
  deletingSubject :: bool
  emitted :: "event list"
  http :: "request list"
  uncaught :: "string list"
  nextId :: int

text \<open>The field initialisers and the constructor of \<^verbatim>\<open>StoreService\<close>; the array
  \<^verbatim>\<open>[]\<close> given to \<^verbatim>\<open>itemsSubject\<close> is at address \<open>0\<close>.\<close>

definition new_StoreService :: "store_settings \<Rightarrow> store" where
  "new_StoreService st =
     \<lparr>settings = st, heap = (\<lambda>a. []), next_addr = 1, itemsSubject = 0,
      selectedSubject = None, loadingSubject = False, deletingSubject = False,
      emitted = [], http = [], uncaught = [], nextId = 1\<rparr>"

text \<open>The constructor of \<^verbatim>\<open>TodoService\<close>; \<^verbatim>\<open>environment.apiUrl\<close> is its parameter.\<close>

definition new_TodoService :: "string \<Rightarrow> store" where
  "new_TodoService apiUrl = new_StoreService \<lparr>url = apiUrl @ ''todo'', itemName = ''Todo''\<rparr>"

subsection \<open>Getters and setters\<close>

definition items :: "store \<Rightarrow> todo list" where
  "items s = heap s (itemsSubject s)"

text \<open>\<^verbatim>\<open>this.itemsSubject.next(val ? [...val] : [])\<close>: the copy is a new array, at the
  next free address.\<close>

definition set_items :: "store \<Rightarrow> todo list \<Rightarrow> store" where
  "set_items s val =
     (let a = next_addr s
      in s\<lparr>heap := (heap s)(a := val), next_addr := Suc a, itemsSubject := a,
            emitted := emitted s @ [Items_next a]\<rparr>)"

definition selected :: "store \<Rightarrow> todo option" where
  "selected s = selectedSubject s"

text \<open>\<^verbatim>\<open>val == null ? null : { ...val }\<close>; \<open>None\<close> is \<^verbatim>\<open>null\<close> or \<^verbatim>\<open>undefined\<close>.\<close>

definition set_selected :: "store \<Rightarrow> todo option \<Rightarrow> store" where
  "set_selected s val =
     s\<lparr>selectedSubject := (case val of None \<Rightarrow> None | Some v \<Rightarrow> Some v),
       emitted := emitted s @ [Selected_next (case val of None \<Rightarrow> None | Some v \<Rightarrow> Some v)]\<rparr>"

definition loading :: "store \<Rightarrow> bool" where
  "loading s = loadingSubject s"

definition set_loading :: "store \<Rightarrow> bool \<Rightarrow> store" where
  "set_loading s val = s\<lparr>loadingSubject := val, emitted := emitted s @ [Loading_next val]\<rparr>"

definition set_loadError :: "store \<Rightarrow> http_error \<Rightarrow> store" where
  "set_loadError s val = s\<lparr>emitted := emitted s @ [LoadError_next val]\<rparr>"

definition set_getError :: "store \<Rightarrow> http_error \<Rightarrow> store" where
  "set_getError s val = s\<lparr>emitted := emitted s @ [GetError_next val]\<rparr>"

definition deleting :: "store \<Rightarrow> bool" where
  "deleting s = deletingSubject s"

definition set_deleting :: "store \<Rightarrow> bool \<Rightarrow> store" where
  "set_deleting s val = s\<lparr>deletingSubject := val, emitted := emitted s @ [Deleting_next val]\<rparr>"

text \<open>\<^verbatim>\<open>subject.next(v)\<close> on a plain \<^verbatim>\<open>Subject\<close>.\<close>

definition next_event :: "store \<Rightarrow> event \<Rightarrow> store" where
  "next_event s ev = s\<lparr>emitted := emitted s @ [ev]\<rparr>"

text \<open>A request handed to \<^verbatim>\<open>HttpClient\<close> and subscribed to.\<close>

definition http_request :: "store \<Rightarrow> http_method \<Rightarrow> string \<Rightarrow> todo option \<Rightarrow> store" where
  "http_request s m u body = s\<lparr>http := http s @ [\<lparr>verb = m, target = u, payload = body\<rparr>]\<rparr>"

text \<open>\<^verbatim>\<open>throwError(msg)\<close> returned by a \<^verbatim>\<open>catchError\<close> handler: the error reaches
  the subscriber, which has no error callback.\<close>

definition throwError :: "store \<Rightarrow> string \<Rightarrow> store" where
  "throwError s msg = s\<lparr>uncaught := uncaught s @ [msg]\<rparr>"

subsection \<open>The cache primitives\<close>

text \<open>\<^verbatim>\<open>Array.prototype.findIndex\<close>: the first index whose element satisfies the
  predicate, \<open>-1\<close> when there is none.\<close>

fun findIndex :: "('a \<Rightarrow> bool) \<Rightarrow> 'a list \<Rightarrow> int" where
  "findIndex p [] = - 1"
| "findIndex p (x # xs) =
     (if p x then 0 else (let r = findIndex p xs in if r < 0 then - 1 else r + 1))"

text \<open>\<^verbatim>\<open>this.items[existingIndex] = item\<close> and \<^verbatim>\<open>this.items.push(item)\<close> write into
  the array that the getter returns, which is the array \<^verbatim>\<open>itemsSubject\<close> holds.\<close>

definition items_assign :: "store \<Rightarrow> nat \<Rightarrow> todo \<Rightarrow> store" where
  "items_assign s i item = s\<lparr>heap := (heap s)(itemsSubject s := (items s)[i := item])\<rparr>"

definition items_push :: "store \<Rightarrow> todo \<Rightarrow> store" where
  "items_push s item = s\<lparr>heap := (heap s)(itemsSubject s := items s @ [item])\<rparr>"

definition replaceOrAdd :: "store \<Rightarrow> todo \<Rightarrow> store" where
  "replaceOrAdd s item =
     (let existingIndex = findIndex (\<lambda>i. uniqueId i = uniqueId item) (items s)
      in if existingIndex \<ge> 0
         then (let s1 = items_assign s (nat existingIndex) item in set_items s1 (items s1))
         else (let s1 = items_push s item in set_items s1 (items s1)))"

definition remove :: "store \<Rightarrow> todo \<Rightarrow> store" where
  "remove s val = set_items s (filter (\<lambda>i. uniqueId i \<noteq> uniqueId val) (items s))"

definition getCached :: "store \<Rightarrow> js_id \<Rightarrow> todo option" where
  "getCached s ident = find (\<lambda>i. uniqueId i = ident) (items s)"

definition findCached :: "store \<Rightarrow> (todo \<Rightarrow> bool) \<Rightarrow> todo option" where
  "findCached s predicate = find (\<lambda>i. predicate i) (items s)"

definition clearCached :: "store \<Rightarrow> store" where
  "clearCached s = set_items s []"

definition select :: "store \<Rightarrow> todo option \<Rightarrow> store" where
  "select s val = set_selected s val"

subsection \<open>The remote operations\<close>

text \<open>
  \<^verbatim>\<open>load(filter, order, page, pageSize, useCache, append)\<close>, the part that runs at the
  call. \<^verbatim>\<open>this.items?.length > 0\<close> is the test on the length of the cached array.
  The parameters \<^verbatim>\<open>filter\<close>, \<^verbatim>\<open>order\<close> and \<^verbatim>\<open>append\<close> carry the suffix \<open>_p\<close>.
\<close>

definition load :: "store \<Rightarrow> string \<Rightarrow> string \<Rightarrow> int \<Rightarrow> int \<Rightarrow> bool \<Rightarrow> bool \<Rightarrow> store" where
  "load s filter_p order_p page pageSize useCache append_p =
     (if useCache \<and> length (items s) > 0 then s
      else
        (let s1 = set_loading s True;
             u = url (settings s1) @ ''?filter='' @ filter_p @ ''&order='' @ order_p
                   @ ''&page='' @ number_to_string page
                   @ ''&pageSize='' @ number_to_string pageSize
         in http_request s1 GET u None))"

text \<open>
  The response of \<^verbatim>\<open>load\<close>: \<^verbatim>\<open>catchError\<close> on a failure, the callback of
  \<^verbatim>\<open>subscribe\<close> on a success, and \<^verbatim>\<open>finalize\<close> after either. The callback closes
  over \<^verbatim>\<open>append\<close>.
\<close>

definition load_response :: "bool \<Rightarrow> store \<Rightarrow> http_error + todo list \<Rightarrow> store" where
  "load_response append_p s r =
     (let s' =
        (case r of
           Inl e \<Rightarrow>
             throwError (set_loadError s e) (''Error loading '' @ itemName (settings s) @ ''s'')
         | Inr res \<Rightarrow>
             (let s1 = (if append_p then set_items s (items s @ res) else set_items s res)
              in if length res = 0 then next_event s1 NoLoadResults_next else s1))
      in set_loading s' False)"

definition get :: "store \<Rightarrow> js_id \<Rightarrow> store" where
  "get s ident =
     (if ident = JNull then set_selected s None
      else
        (let s1 = set_loading s True
         in http_request s1 GET (url (settings s1) @ to_string ident) None))"

definition get_response :: "store \<Rightarrow> http_error + todo \<Rightarrow> store" where
  "get_response s r =
     (let s' =
        (case r of
           Inl e \<Rightarrow> throwError (set_getError s e) (''Error loading '' @ itemName (settings s))
         | Inr res \<Rightarrow> set_selected (replaceOrAdd s res) (Some res))
      in set_loading s' False)"

definition add :: "store \<Rightarrow> todo \<Rightarrow> store" where
  "add s val =
     (let s1 = set_loading s True
      in http_request s1 POST (url (settings s1)) (Some val))"

definition add_response :: "store \<Rightarrow> http_error + todo \<Rightarrow> store" where
  "add_response s r =
     (let s' =
        (case r of
           Inl e \<Rightarrow> throwError (set_getError s e) (''Error creating '' @ itemName (settings s))
         | Inr res \<Rightarrow> next_event (replaceOrAdd s res) (CreateSuccess_next res))
      in set_loading s' False)"

definition update :: "store \<Rightarrow> todo \<Rightarrow> store" where
  "update s val =
     (let s1 = set_loading s True;
          ident = uniqueId val
      in http_request s1 PUT (url (settings s1) @ to_string ident) (Some val))"

definition update_response :: "store \<Rightarrow> http_error + todo \<Rightarrow> store" where
  "update_response s r =
     (let s' =
        (case r of
           Inl e \<Rightarrow> throwError (set_getError s e) (''Error updating '' @ itemName (settings s))
         | Inr res \<Rightarrow> next_event (replaceOrAdd s res) (UpdateSuccess_next res))
      in set_loading s' False)"

definition delete :: "store \<Rightarrow> todo \<Rightarrow> store" where
  "delete s val =
     (let s1 = set_deleting s True;
          ident = uniqueId val
      in http_request s1 DELETE (url (settings s1) @ to_string ident) None)"

text \<open>The response of \<^verbatim>\<open>delete\<close>; its callback closes over \<^verbatim>\<open>val\<close> and ignores the
  body of the response.\<close>

definition delete_response :: "todo \<Rightarrow> store \<Rightarrow> http_error + unit \<Rightarrow> store" where
  "delete_response val s r =
     (let s' =
        (case r of
           Inl e \<Rightarrow> throwError (set_getError s e) (''Error deleting '' @ itemName (settings s))
         | Inr res \<Rightarrow> next_event (remove s val) (DeleteSuccess_next val))
      in set_deleting s' False)"

subsection \<open>The local operations of \<^verbatim>\<open>TodoService\<close>\<close>

text \<open>
  The counter \<^verbatim>\<open>nextId\<close> is a JavaScript number, a binary64 floating-point number.
  The field starts at \<open>1\<close> and is written by \<^verbatim>\<open>this.nextId++\<close> only, so its value is
  an integer. The sum of two such numbers is the exact sum rounded to 53 significant
  bits, to the nearest value and to the even significand on a tie: \<open>bit_length\<close> is
  the number of binary digits of the magnitude, \<open>q\<close> the distance between the two
  neighbouring floating-point numbers.
\<close>

function bit_length :: "int \<Rightarrow> nat" where
  "bit_length n = (if n \<le> 0 then 0 else Suc (bit_length (n div 2)))"
  by pat_completeness auto
termination
  by (relation "measure nat") auto

declare bit_length.simps [simp del]

definition round_binary64 :: "int \<Rightarrow> int" where
  "round_binary64 x =
     (let a = \<bar>x\<bar>
      in if a \<le> 2 ^ 53 then x
         else
           (let q = 2 ^ (bit_length a - 53);
                d = a div q;
                r = a mod q;
                m = (if 2 * r < q then d
                     else if q < 2 * r then d + 1
                     else if even d then d else d + 1)
            in sgn x * (m * q)))"

definition number_add :: "int \<Rightarrow> int \<Rightarrow> int" where
  "number_add x y = round_binary64 (x + y)"

text \<open>\<^verbatim>\<open>this.nextId++; return this.nextId;\<close>\<close>

definition getNextId :: "store \<Rightarrow> int \<times> store" where
  "getNextId s = (let s1 = s\<lparr>nextId := number_add (nextId s) 1\<rparr> in (nextId s1, s1))"

text \<open>\<^verbatim>\<open>addTodo\<close> writes the new identifier into its argument; \<open>todo1\<close> is the
  argument after the write.\<close>

definition addTodo :: "store \<Rightarrow> todo \<Rightarrow> store" where
  "addTodo s todo0 =
     (let (n, s1) = getNextId s;
          todo1 = todo0\<lparr>id_t := JNum n\<rparr>
      in next_event (replaceOrAdd s1 todo1) (CreateSuccess_next todo1))"

definition updateTodo :: "store \<Rightarrow> todo \<Rightarrow> store" where
  "updateTodo s todo0 = next_event (replaceOrAdd s todo0) (UpdateSuccess_next todo0)"

definition completeTodo :: "store \<Rightarrow> todo \<Rightarrow> store" where
  "completeTodo s todo0 = remove s todo0"

subsection \<open>Sample values\<close>

text \<open>Three entities for the examples below; \<open>todo_a\<close> and \<open>todo_a2\<close> share an identifier.\<close>

definition todo_a :: todo where
  "todo_a = \<lparr>id_t = JNum 1, completed = False, text_t = ''a''\<rparr>"

definition todo_b :: todo where
  "todo_b = \<lparr>id_t = JNum 2, completed = False, text_t = ''b''\<rparr>"

definition todo_a2 :: todo where
  "todo_a2 = \<lparr>id_t = JNum 1, completed = False, text_t = ''a2''\<rparr>"

text \<open>The entity of the scenario "buy milk": a new \<^verbatim>\<open>Todo\<close> with its text set.\<close>

definition buy_milk :: todo where
  "buy_milk = new_Todo\<lparr>text_t := ''buy milk''\<rparr>"

section \<open>Properties\<close>

subsection \<open>Getters after setters\<close>

lemma items_set_items: "items (set_items s val) = val"
  by (simp add: items_def set_items_def Let_def)

lemma items_set_loading: "items (set_loading s b) = items s"
  by (simp add: items_def set_loading_def)

lemma items_set_deleting: "items (set_deleting s b) = items s"
  by (simp add: items_def set_deleting_def)

lemma items_set_selected: "items (set_selected s v) = items s"
  by (simp add: items_def set_selected_def)

lemma items_set_loadError: "items (set_loadError s e) = items s"
  by (simp add: items_def set_loadError_def)

lemma items_set_getError: "items (set_getError s e) = items s"
  by (simp add: items_def set_getError_def)

lemma items_next_event: "items (next_event s ev) = items s"
  by (simp add: items_def next_event_def)

lemma items_http_request: "items (http_request s m u b) = items s"
  by (simp add: items_def http_request_def)

lemma items_throwError: "items (throwError s msg) = items s"
  by (simp add: items_def throwError_def)

lemmas items_setters =
  items_set_loading items_set_deleting items_set_selected items_set_loadError
  items_set_getError items_next_event items_http_request items_throwError

lemma new_TodoService_fields:
  "emitted (new_TodoService u) = []" "http (new_TodoService u) = []"
  "next_addr (new_TodoService u) = 1" "itemsSubject (new_TodoService u) = 0"
  "selectedSubject (new_TodoService u) = None" "nextId (new_TodoService u) = 1"
  "settings (new_TodoService u) = \<lparr>url = u @ ''todo'', itemName = ''Todo''\<rparr>"
  "\<not> loadingSubject (new_TodoService u)" "\<not> deletingSubject (new_TodoService u)"
  by (simp_all add: new_TodoService_def new_StoreService_def)

lemma number_to_string_example: "number_to_string 42 = ''42'' \<and> number_to_string (- 7) = ''-7''"
  by code_simp

subsection \<open>\<^verbatim>\<open>findIndex\<close> and the cache primitives\<close>

lemma findIndex_neg: "findIndex p xs < 0 \<longleftrightarrow> (\<forall>x\<in>set xs. \<not> p x)"
  by (induction xs) (auto simp: Let_def)

lemma findIndex_range: "findIndex p xs = - 1 \<or> (0 \<le> findIndex p xs \<and> findIndex p xs < int (length xs))"
  by (induction xs) (auto simp: Let_def)

lemma findIndex_first:
  "0 \<le> findIndex p xs \<Longrightarrow>
     nat (findIndex p xs) < length xs \<and> p (xs ! nat (findIndex p xs)) \<and>
     (\<forall>j < nat (findIndex p xs). \<not> p (xs ! j))"
proof (induction xs)
  case Nil
  then show ?case by simp
next
  case (Cons x xs)
  show ?case
  proof (cases "p x")
    case True
    then show ?thesis by simp
  next
    case False
    with Cons.prems have r: "0 \<le> findIndex p xs"
      by (simp add: Let_def split: if_splits)
    with Cons.IH have ih: "nat (findIndex p xs) < length xs" "p (xs ! nat (findIndex p xs))"
      "\<forall>j < nat (findIndex p xs). \<not> p (xs ! j)" by auto
    from False r have eq: "nat (findIndex p (x # xs)) = Suc (nat (findIndex p xs))"
      by (simp add: Let_def nat_add_distrib)
    show ?thesis
      unfolding eq using ih False by (auto simp: less_Suc_eq_0_disj)
  qed
qed

lemma items_items_assign: "items (items_assign s i item) = (items s)[i := item]"
  by (simp add: items_assign_def items_def)

lemma items_items_push: "items (items_push s item) = items s @ [item]"
  by (simp add: items_push_def items_def)

lemma items_replaceOrAdd:
  "items (replaceOrAdd s item) =
     (if 0 \<le> findIndex (\<lambda>i. uniqueId i = uniqueId item) (items s)
      then (items s)[nat (findIndex (\<lambda>i. uniqueId i = uniqueId item) (items s)) := item]
      else items s @ [item])"
  by (simp add: replaceOrAdd_def Let_def items_set_items items_items_assign items_items_push)

lemma items_remove: "items (remove s val) = filter (\<lambda>i. uniqueId i \<noteq> uniqueId val) (items s)"
  by (simp add: remove_def items_set_items)

lemma findIndex_nonneg: "0 \<le> findIndex p xs \<longleftrightarrow> (\<exists>x\<in>set xs. p x)"
  using findIndex_neg [of p xs] by (simp add: not_less [symmetric])

lemma findIndex_Cons_nat:
  "\<not> p x \<Longrightarrow> 0 \<le> findIndex p xs \<Longrightarrow> nat (findIndex p (x # xs)) = Suc (nat (findIndex p xs))"
  by (simp add: Let_def nat_add_distrib)

lemma upsert_Cons:
  "(if 0 \<le> findIndex p (x # xs)
    then (x # xs)[nat (findIndex p (x # xs)) := y] else (x # xs) @ [y]) =
   (if p x then y # xs
    else x # (if 0 \<le> findIndex p xs then xs[nat (findIndex p xs) := y] else xs @ [y]))"
proof (cases "p x")
  case True
  then show ?thesis by simp
next
  case False
  show ?thesis
  proof (cases "0 \<le> findIndex p xs")
    case True
    with False have nn: "0 \<le> findIndex p (x # xs)" by (simp add: Let_def)
    from False True have eq: "nat (findIndex p (x # xs)) = Suc (nat (findIndex p xs))"
      by (rule findIndex_Cons_nat)
    from nn True False show ?thesis
      unfolding eq by (simp del: findIndex.simps)
  next
    case neg: False
    with False have "\<not> 0 \<le> findIndex p (x # xs)" by (simp add: Let_def)
    with neg False show ?thesis by (simp only: if_False append_Cons)
  qed
qed

lemma upsert_ids:
  "map f (if 0 \<le> findIndex (\<lambda>i. f i = f y) xs
          then xs[nat (findIndex (\<lambda>i. f i = f y) xs) := y] else xs @ [y]) =
   (if f y \<in> set (map f xs) then map f xs else map f xs @ [f y])"
proof (induction xs)
  case Nil
  then show ?case by simp
next
  case (Cons x xs)
  show ?case
    unfolding upsert_Cons using Cons.IH by auto
qed

lemma upsert_find:
  "find (\<lambda>i. f i = k) (if 0 \<le> findIndex (\<lambda>i. f i = f y) xs
          then xs[nat (findIndex (\<lambda>i. f i = f y) xs) := y] else xs @ [y]) =
   (if k = f y then Some y else find (\<lambda>i. f i = k) xs)"
proof (induction xs)
  case Nil
  then show ?case by auto
next
  case (Cons x xs)
  show ?case
    unfolding upsert_Cons using Cons.IH by auto
qed

lemma ids_replaceOrAdd:
  "map uniqueId (items (replaceOrAdd s item)) =
     (if uniqueId item \<in> set (map uniqueId (items s)) then map uniqueId (items s)
      else map uniqueId (items s) @ [uniqueId item])"
  unfolding items_replaceOrAdd by (rule upsert_ids)

lemma getCached_replaceOrAdd:
  "getCached (replaceOrAdd s item) k = (if k = uniqueId item then Some item else getCached s k)"
  unfolding getCached_def items_replaceOrAdd by (rule upsert_find)

lemma distinct_replaceOrAdd:
  "distinct (map uniqueId (items s)) \<Longrightarrow> distinct (map uniqueId (items (replaceOrAdd s item)))"
  by (simp add: ids_replaceOrAdd)

lemma ids_foldl_replaceOrAdd:
  "set (map uniqueId (items (foldl replaceOrAdd s xs))) =
     set (map uniqueId (items s)) \<union> set (map uniqueId xs)"
proof (induction xs arbitrary: s)
  case Nil
  then show ?case by simp
next
  case (Cons x xs)
  have "set (map uniqueId (items (replaceOrAdd s x))) = insert (uniqueId x) (set (map uniqueId (items s)))"
    by (auto simp: ids_replaceOrAdd)
  with Cons.IH [of "replaceOrAdd s x"] show ?case by auto
qed

lemma distinct_foldl_replaceOrAdd:
  "distinct (map uniqueId (items s)) \<Longrightarrow> distinct (map uniqueId (items (foldl replaceOrAdd s xs)))"
  by (induction xs arbitrary: s) (simp_all add: distinct_replaceOrAdd)

lemma getCached_foldl_replaceOrAdd:
  "getCached (foldl replaceOrAdd s xs) k =
     (if k \<in> set (map uniqueId xs) then Some (last (filter (\<lambda>y. uniqueId y = k) xs))
      else getCached s k)"
proof (induction xs arbitrary: s)
  case Nil
  then show ?case by simp
next
  case (Cons x xs)
  show ?case
    using Cons.IH [of "replaceOrAdd s x"]
    by (auto simp: getCached_replaceOrAdd filter_empty_conv)
qed

lemma find_distinct:
  "distinct (map f xs) \<Longrightarrow> e \<in> set xs \<Longrightarrow> find (\<lambda>i. f i = f e) xs = Some e"
  by (induction xs) (auto simp: image_iff)

lemma getCached_member:
  "distinct (map uniqueId (items s)) \<Longrightarrow> e \<in> set (items s) \<Longrightarrow> getCached s (uniqueId e) = Some e"
  unfolding getCached_def by (rule find_distinct)

lemma getCached_Some: "getCached s k = Some e \<Longrightarrow> e \<in> set (items s) \<and> uniqueId e = k"
  unfolding getCached_def by (auto simp: find_Some_iff)

lemma replaceOrAdd_in_place:
  assumes d: "distinct (map uniqueId (items s))"
    and i: "i < length (items s)" and eq: "uniqueId (items s ! i) = uniqueId item"
  shows "items (replaceOrAdd s item) = (items s)[i := item]"
proof -
  let ?p = "\<lambda>x. uniqueId x = uniqueId item"
  from i eq have "\<exists>x\<in>set (items s). ?p x" using nth_mem [OF i] by blast
  then have nn: "0 \<le> findIndex ?p (items s)" by (simp only: findIndex_nonneg)
  note f = findIndex_first [OF nn]
  have "nat (findIndex ?p (items s)) = i"
  proof -
    let ?n = "nat (findIndex ?p (items s))"
    let ?ids = "map uniqueId (items s)"
    have a: "?n < length ?ids" using f by simp
    have b: "i < length ?ids" using i by simp
    have c: "?ids ! ?n = ?ids ! i" using f i eq by simp
    from nth_eq_iff_index_eq [OF d a b] c show ?thesis by blast
  qed
  with nn show ?thesis by (simp add: items_replaceOrAdd)
qed

lemma replaceOrAdd_append:
  assumes "uniqueId item \<notin> set (map uniqueId (items s))"
  shows "items (replaceOrAdd s item) = items s @ [item]"
proof -
  from assms have "\<forall>x\<in>set (items s). \<not> uniqueId x = uniqueId item"
    by (metis imageI set_map)
  then have "findIndex (\<lambda>x. uniqueId x = uniqueId item) (items s) < 0"
    by (simp add: findIndex_neg)
  then show ?thesis by (simp add: items_replaceOrAdd)
qed

lemma items_new_StoreService: "items (new_StoreService st) = []"
  by (simp add: items_def new_StoreService_def)

lemma items_new_TodoService: "items (new_TodoService u) = []"
  by (simp add: new_TodoService_def items_new_StoreService)

lemma items_one: "items (replaceOrAdd (new_TodoService u) t) = [t]"
  by (simp add: items_replaceOrAdd items_new_TodoService)

lemma emitted_replaceOrAdd: "emitted (replaceOrAdd s item) = emitted s @ [Items_next (next_addr s)]"
  by (simp add: replaceOrAdd_def Let_def set_items_def items_assign_def items_push_def)

lemma next_addr_replaceOrAdd: "next_addr (replaceOrAdd s item) = Suc (next_addr s)"
  by (simp add: replaceOrAdd_def Let_def set_items_def items_assign_def items_push_def)

lemma nextId_replaceOrAdd: "nextId (replaceOrAdd s item) = nextId s"
  by (simp add: replaceOrAdd_def Let_def set_items_def items_assign_def items_push_def)

subsection \<open>Sequences of \<^verbatim>\<open>replaceOrAdd\<close>\<close>

text \<open>
  Claim C1. Let the cache be unique by identifier and let \<open>replaceOrAdd\<close> be called on
  the items \<open>xs\<close>, in this order. Then the cache that results has no identifier twice,
  its identifiers are those of the first cache and those of \<open>xs\<close>, and each of its
  entities is the last item of \<open>xs\<close> with its identifier (or, when \<open>xs\<close> has no such
  item, an entity of the first cache). A further call replaces the entity at the index
  that holds the item's identifier and leaves every other index as it is, or puts the
  item behind the last index when no entity has its identifier.
\<close>

theorem replaceOrAdd_sequence:
  assumes "distinct (map uniqueId (items s))"
  shows "(let s' = foldl replaceOrAdd s xs in
     distinct (map uniqueId (items s')) \<and>
     set (map uniqueId (items s')) = set (map uniqueId (items s)) \<union> set (map uniqueId xs) \<and>
     (\<forall>e \<in> set (items s').
        if uniqueId e \<in> set (map uniqueId xs)
        then e = last (filter (\<lambda>y. uniqueId y = uniqueId e) xs)
        else e \<in> set (items s)) \<and>
     (\<forall>i item. i < length (items s') \<and> uniqueId (items s' ! i) = uniqueId item \<longrightarrow>
        items (replaceOrAdd s' item) = (items s')[i := item]) \<and>
     (\<forall>item. uniqueId item \<notin> set (map uniqueId (items s')) \<longrightarrow>
        items (replaceOrAdd s' item) = items s' @ [item]))"
proof -
  define s' where "s' = foldl replaceOrAdd s xs"
  have d: "distinct (map uniqueId (items s'))"
    unfolding s'_def using assms by (rule distinct_foldl_replaceOrAdd)
  have ids: "set (map uniqueId (items s')) = set (map uniqueId (items s)) \<union> set (map uniqueId xs)"
    unfolding s'_def by (rule ids_foldl_replaceOrAdd)
  have last_applied: "\<forall>e \<in> set (items s').
        if uniqueId e \<in> set (map uniqueId xs)
        then e = last (filter (\<lambda>y. uniqueId y = uniqueId e) xs)
        else e \<in> set (items s)"
  proof
    fix e assume e: "e \<in> set (items s')"
    from d e have g: "getCached s' (uniqueId e) = Some e" by (rule getCached_member)
    show "if uniqueId e \<in> set (map uniqueId xs)
        then e = last (filter (\<lambda>y. uniqueId y = uniqueId e) xs)
        else e \<in> set (items s)"
    proof (cases "uniqueId e \<in> set (map uniqueId xs)")
      case True
      have "getCached s' (uniqueId e) = Some (last (filter (\<lambda>y. uniqueId y = uniqueId e) xs))"
        unfolding s'_def getCached_foldl_replaceOrAdd using True by (simp only: if_True)
      with g have "Some e = Some (last (filter (\<lambda>y. uniqueId y = uniqueId e) xs))"
        by (simp only:)
      then have "e = last (filter (\<lambda>y. uniqueId y = uniqueId e) xs)"
        by (simp only: option.inject)
      with True show ?thesis by (simp only: if_True)
    next
      case False
      have "getCached s' (uniqueId e) = getCached s (uniqueId e)"
        unfolding s'_def getCached_foldl_replaceOrAdd using False by (simp only: if_False)
      with g have "getCached s (uniqueId e) = Some e" by (simp only:)
      then have "e \<in> set (items s)" by (rule getCached_Some [THEN conjunct1])
      with False show ?thesis by (simp only: if_False)
    qed
  qed
  have in_place: "\<forall>i item. i < length (items s') \<and> uniqueId (items s' ! i) = uniqueId item \<longrightarrow>
        items (replaceOrAdd s' item) = (items s')[i := item]"
    using replaceOrAdd_in_place [OF d] by simp
  have at_end: "\<forall>item. uniqueId item \<notin> set (map uniqueId (items s')) \<longrightarrow>
        items (replaceOrAdd s' item) = items s' @ [item]"
    using replaceOrAdd_append [of _ s'] by simp
  show ?thesis
    unfolding s'_def [symmetric] Let_def
    by (intro conjI d ids last_applied in_place at_end)
qed


theorem replaceOrAdd_sequence_witness:
  "items (foldl replaceOrAdd (new_TodoService ''/api/'') [todo_a, todo_b, todo_a2]) = [todo_a2, todo_b] \<and>
   distinct (map uniqueId (items (foldl replaceOrAdd (new_TodoService ''/api/'') [todo_a, todo_b, todo_a2]))) \<and>
   items (replaceOrAdd (foldl replaceOrAdd (new_TodoService ''/api/'') [todo_a, todo_b, todo_a2]) todo_a)
     = [todo_a, todo_b]"
proof -
  let ?s = "new_TodoService ''/api/''"
  let ?s' = "foldl replaceOrAdd ?s [todo_a, todo_b, todo_a2]"
  have h: "distinct (map uniqueId (items ?s))"
    by (simp add: items_new_TodoService)
  note t = replaceOrAdd_sequence [OF h, of "[todo_a, todo_b, todo_a2]", unfolded Let_def]
  have e: "items ?s' = [todo_a2, todo_b]"
    by (simp add: items_replaceOrAdd items_new_TodoService uniqueId_def todo_a_def todo_b_def todo_a2_def)
  have d: "distinct (map uniqueId (items ?s'))"
    using t by (rule conjunct1)
  have "0 < length (items ?s') \<and> uniqueId (items ?s' ! 0) = uniqueId todo_a"
    unfolding e by (simp add: uniqueId_def todo_a_def todo_a2_def)
  with t have "items (replaceOrAdd ?s' todo_a) = (items ?s')[0 := todo_a]"
    by blast
  then have r: "items (replaceOrAdd ?s' todo_a) = [todo_a, todo_b]"
    unfolding e by simp
  from e d r show ?thesis by (intro conjI)
qed

lemma items_load: "items (load s filter_p order_p page pageSize useCache append_p) = items s"
  by (simp add: load_def Let_def items_setters)

lemma items_load_response_failure: "items (load_response append_p s (Inl e)) = items s"
  by (simp add: load_response_def Let_def items_setters)

lemma items_load_response_replace: "items (load_response False s (Inr res)) = res"
  by (simp add: load_response_def Let_def items_setters items_set_items)

lemma items_load_response_append: "items (load_response True s (Inr res)) = items s @ res"
  by (simp add: load_response_def Let_def items_setters items_set_items)

lemma items_get: "items (get s ident) = items s"
  by (simp add: get_def Let_def items_setters)

lemma items_get_response:
  "items (get_response s r) = (case r of Inl e \<Rightarrow> items s | Inr res \<Rightarrow> items (replaceOrAdd s res))"
  by (simp add: get_response_def Let_def items_setters split: sum.split)

lemma items_add: "items (add s val) = items s"
  by (simp add: add_def Let_def items_setters)

lemma items_add_response:
  "items (add_response s r) = (case r of Inl e \<Rightarrow> items s | Inr res \<Rightarrow> items (replaceOrAdd s res))"
  by (simp add: add_response_def Let_def items_setters split: sum.split)

lemma items_update: "items (update s val) = items s"
  by (simp add: update_def Let_def items_setters)

lemma items_update_response:
  "items (update_response s r) = (case r of Inl e \<Rightarrow> items s | Inr res \<Rightarrow> items (replaceOrAdd s res))"
  by (simp add: update_response_def Let_def items_setters split: sum.split)

lemma items_delete: "items (delete s val) = items s"
  by (simp add: delete_def Let_def items_setters)

lemma items_delete_response:
  "items (delete_response val s r) = (case r of Inl e \<Rightarrow> items s | Inr res \<Rightarrow> items (remove s val))"
  by (simp add: delete_response_def Let_def items_setters split: sum.split)

lemma items_clearCached: "items (clearCached s) = []"
  by (simp add: clearCached_def items_set_items)

lemma distinct_remove:
  "distinct (map uniqueId (items s)) \<Longrightarrow> distinct (map uniqueId (items (remove s val)))"
  by (simp add: items_remove distinct_map_filter)

subsection \<open>Uniqueness by identifier\<close>

text \<open>
  Claim C2, as the code has it. A new service has a cache that is unique by identifier.
  From a cache that is unique by identifier, \<open>replaceOrAdd\<close>, \<open>remove\<close>,
  \<open>clearCached\<close>, \<open>get\<close>, \<open>add\<close>, \<open>update\<close> and \<open>delete\<close> (at the call and at
  the response, failed or successful), a \<open>load\<close> at the call and a failed \<open>load\<close> leave
  a cache that is unique by identifier. A successful \<open>load\<close> makes the cache the
  response (\<^verbatim>\<open>append = false\<close>) or the old cache followed by the response
  (\<^verbatim>\<open>append = true\<close>), with no de-duplication: the result is unique by identifier
  exactly when the response is and, with \<^verbatim>\<open>append = true\<close>, shares no identifier with
  the cache.
\<close>

theorem unique_ids_preserved:
  assumes "distinct (map uniqueId (items s))"
  shows "distinct (map uniqueId (items (new_StoreService st))) \<and>
    distinct (map uniqueId (items (replaceOrAdd s item))) \<and>
    distinct (map uniqueId (items (remove s val))) \<and>
    distinct (map uniqueId (items (clearCached s))) \<and>
    distinct (map uniqueId (items (get s ident))) \<and>
    distinct (map uniqueId (items (get_response s r))) \<and>
    distinct (map uniqueId (items (add s val))) \<and>
    distinct (map uniqueId (items (add_response s r))) \<and>
    distinct (map uniqueId (items (update s val))) \<and>
    distinct (map uniqueId (items (update_response s r))) \<and>
    distinct (map uniqueId (items (delete s val))) \<and>
    distinct (map uniqueId (items (delete_response val s rd))) \<and>
    distinct (map uniqueId (items (load s filter_p order_p page pageSize useCache append_p))) \<and>
    distinct (map uniqueId (items (load_response append_p s (Inl e)))) \<and>
    items (load_response False s (Inr res)) = res \<and>
    items (load_response True s (Inr res)) = items s @ res \<and>
    (distinct (map uniqueId (items (load_response False s (Inr res)))) \<longleftrightarrow>
       distinct (map uniqueId res)) \<and>
    (distinct (map uniqueId (items (load_response True s (Inr res)))) \<longleftrightarrow>
       distinct (map uniqueId res) \<and>
       set (map uniqueId (items s)) \<inter> set (map uniqueId res) = {})"
proof -
  note d = assms
  note u = distinct_replaceOrAdd [OF d]
  have c0: "distinct (map uniqueId (items (new_StoreService st)))"
    by (simp add: items_new_StoreService)
  have c2: "distinct (map uniqueId (items (remove s val)))"
    using d by (rule distinct_remove)
  have c3: "distinct (map uniqueId (items (clearCached s)))"
    by (simp add: items_clearCached)
  have c4: "distinct (map uniqueId (items (get s ident)))"
    using d by (simp add: items_get)
  have c5: "distinct (map uniqueId (items (get_response s r)))"
    using d u by (simp add: items_get_response split: sum.split)
  have c6: "distinct (map uniqueId (items (add s val)))"
    using d by (simp add: items_add)
  have c7: "distinct (map uniqueId (items (add_response s r)))"
    using d u by (simp add: items_add_response split: sum.split)
  have c8: "distinct (map uniqueId (items (update s val)))"
    using d by (simp add: items_update)
  have c9: "distinct (map uniqueId (items (update_response s r)))"
    using d u by (simp add: items_update_response split: sum.split)
  have c10: "distinct (map uniqueId (items (delete s val)))"
    using d by (simp add: items_delete)
  have c11: "distinct (map uniqueId (items (delete_response val s rd)))"
    using d c2 by (simp add: items_delete_response split: sum.split)
  have c12: "distinct (map uniqueId (items (load s filter_p order_p page pageSize useCache append_p)))"
    using d by (simp add: items_load)
  have c13: "distinct (map uniqueId (items (load_response append_p s (Inl e))))"
    using d by (simp add: items_load_response_failure)
  have c14: "distinct (map uniqueId (items (load_response False s (Inr res)))) \<longleftrightarrow>
       distinct (map uniqueId res)"
    by (simp add: items_load_response_replace)
  have c15: "distinct (map uniqueId (items (load_response True s (Inr res)))) \<longleftrightarrow>
       distinct (map uniqueId res) \<and>
       set (map uniqueId (items s)) \<inter> set (map uniqueId res) = {}"
    using d by (simp add: items_load_response_append)
  show ?thesis
    by (intro conjI c0 u c2 c3 c4 c5 c6 c7 c8 c9 c10 c11 c12 c13 c14 c15
        items_load_response_replace items_load_response_append)
qed

text \<open>
  A successful \<open>load\<close> does not keep uniqueness in general: the same page appended
  twice, or a response that holds an identifier twice, leaves two entities with one
  identifier.
\<close>

theorem load_duplicates_counterexample:
  "distinct (map uniqueId (items (load_response False (new_TodoService ''/api/'') (Inr [todo_a])))) \<and>
   \<not> distinct (map uniqueId (items
        (load_response True (load_response False (new_TodoService ''/api/'') (Inr [todo_a]))
           (Inr [todo_a])))) \<and>
   distinct (map uniqueId (items (new_TodoService ''/api/''))) \<and>
   \<not> distinct (map uniqueId (items
        (load_response False (new_TodoService ''/api/'') (Inr [todo_a, todo_a2]))))"
  by (simp add: items_load_response_replace items_load_response_append items_new_TodoService
      uniqueId_def todo_a_def todo_a2_def)

theorem unique_ids_preserved_witness:
  "distinct (map uniqueId (items (replaceOrAdd (new_TodoService ''/api/'') todo_a))) \<and>
   items (replaceOrAdd (new_TodoService ''/api/'') todo_a) = [todo_a] \<and>
   distinct (map uniqueId (items (replaceOrAdd (replaceOrAdd (new_TodoService ''/api/'') todo_a) todo_a2))) \<and>
   distinct (map uniqueId (items (remove (replaceOrAdd (new_TodoService ''/api/'') todo_a) todo_a2))) \<and>
   distinct (map uniqueId (items
      (load_response True (replaceOrAdd (new_TodoService ''/api/'') todo_a) (Inr [todo_b])))) \<and>
   items (load_response True (replaceOrAdd (new_TodoService ''/api/'') todo_a) (Inr [todo_b]))
     = [todo_a, todo_b]"
proof -
  let ?s = "replaceOrAdd (new_TodoService ''/api/'') todo_a"
  have i: "items ?s = [todo_a]" by (rule items_one)
  have h: "distinct (map uniqueId (items ?s))" unfolding i by simp
  note t = unique_ids_preserved [OF h, where res = "[todo_b]" and item = todo_a2 and val = todo_a2]
  have a: "distinct (map uniqueId (items (replaceOrAdd ?s todo_a2)))"
    using t by blast
  have b: "distinct (map uniqueId (items (remove ?s todo_a2)))"
    using t by blast
  have c: "items (load_response True ?s (Inr [todo_b])) = [todo_a, todo_b]"
    using t unfolding i by simp
  have "distinct (map uniqueId [todo_b]) \<and>
       set (map uniqueId (items ?s)) \<inter> set (map uniqueId [todo_b]) = {}"
    unfolding i by (simp add: uniqueId_def todo_a_def todo_b_def)
  with t have e: "distinct (map uniqueId (items (load_response True ?s (Inr [todo_b]))))"
    by blast
  from h i a b e c show ?thesis by (intro conjI)
qed

subsection \<open>The arrays handed to observers\<close>

text \<open>
  The setter of \<^verbatim>\<open>items\<close> publishes a copy of its argument. \<open>remove\<close>,
  \<open>clearCached\<close> and the response of \<open>load\<close> hand it a list of their own making
  (\<^verbatim>\<open>filter\<close>, \<^verbatim>\<open>[]\<close>, \<^verbatim>\<open>concat\<close> or the response), so every array allocated
  before the call keeps its contents. \<open>replaceOrAdd\<close> first writes into the array the
  getter returns, which is the array published last, and calls the setter afterwards:
  the array published last ends with the contents of the new one.
\<close>

lemma heap_set_items_old: "a < next_addr s \<Longrightarrow> heap (set_items s v) a = heap s a"
  by (simp add: set_items_def Let_def)

lemma heap_remove: "a < next_addr s \<Longrightarrow> heap (remove s val) a = heap s a"
  by (simp add: remove_def heap_set_items_old)

lemma heap_clearCached: "a < next_addr s \<Longrightarrow> heap (clearCached s) a = heap s a"
  by (simp add: clearCached_def heap_set_items_old)

lemma heap_load_response: "a < next_addr s \<Longrightarrow> heap (load_response append_p s r) a = heap s a"
  by (simp add: load_response_def Let_def set_items_def next_event_def set_loading_def
      set_loadError_def throwError_def split: sum.split)

lemma heap_replaceOrAdd_current:
  "itemsSubject s < next_addr s \<Longrightarrow>
     heap (replaceOrAdd s item) (itemsSubject s) = items (replaceOrAdd s item)"
  by (simp add: replaceOrAdd_def Let_def set_items_def items_assign_def items_push_def items_def)

lemma heap_replaceOrAdd_other:
  "a < next_addr s \<Longrightarrow> a \<noteq> itemsSubject s \<Longrightarrow> heap (replaceOrAdd s item) a = heap s a"
  by (simp add: replaceOrAdd_def Let_def set_items_def items_assign_def items_push_def items_def)

lemma itemsSubject_set_items: "itemsSubject (set_items s v) < next_addr (set_items s v)"
  by (simp add: set_items_def Let_def)

text \<open>
  Claim C3 requires every array handed to an observer to stay as it was. On a new
  service, three calls of \<open>replaceOrAdd\<close>: the array at address \<open>1\<close>, published by the
  first call with the contents \<open>[todo_a]\<close>, holds \<open>[todo_a, todo_b]\<close> after the second
  call; the array at address \<open>2\<close>, published by the second call with
  \<open>[todo_a, todo_b]\<close>, holds \<open>[todo_a2, todo_b]\<close> after the third; and the first array
  of the subject, at address \<open>0\<close>, is no longer empty after the first call.
\<close>

theorem replaceOrAdd_writes_emitted_array:
  "(let s0 = new_TodoService ''/api/'';
        s1 = replaceOrAdd s0 todo_a;
        s2 = replaceOrAdd s1 todo_b;
        s3 = replaceOrAdd s2 todo_a2
    in heap s0 0 = [] \<and> heap s1 0 = [todo_a] \<and>
       emitted s1 = [Items_next 1] \<and> heap s1 1 = [todo_a] \<and>
       emitted s2 = [Items_next 1, Items_next 2] \<and>
       heap s2 1 = [todo_a, todo_b] \<and> heap s2 2 = [todo_a, todo_b] \<and>
       emitted s3 = [Items_next 1, Items_next 2, Items_next 3] \<and>
       heap s3 2 = [todo_a2, todo_b] \<and> heap s3 3 = [todo_a2, todo_b])"
  by (simp add: Let_def replaceOrAdd_def set_items_def items_assign_def items_push_def items_def
      new_TodoService_def new_StoreService_def uniqueId_def todo_a_def todo_b_def todo_a2_def)

subsection \<open>\<^verbatim>\<open>load\<close>\<close>

text \<open>
  Claim C4. When the cache is not empty, \<open>load\<close> with \<^verbatim>\<open>useCache = true\<close> returns the
  state it was called in: no request is issued, no subject emits (the loading flag
  included), and the cache and its array are the same.
\<close>

theorem load_useCache_noop:
  assumes "0 < length (items s)"
  shows "(let s' = load s filter_p order_p page pageSize True append_p in
           s' = s \<and> http s' = http s \<and> emitted s' = emitted s \<and>
           loadingSubject s' = loadingSubject s \<and> heap s' = heap s \<and>
           itemsSubject s' = itemsSubject s \<and> items s' = items s)"
  using assms by (simp add: load_def)

theorem load_useCache_noop_witness:
  "0 < length (items (replaceOrAdd (new_TodoService ''/api/'') todo_a)) \<and>
   load (replaceOrAdd (new_TodoService ''/api/'') todo_a) ''done'' ''id'' 2 10 True False
     = replaceOrAdd (new_TodoService ''/api/'') todo_a \<and>
   http (load (replaceOrAdd (new_TodoService ''/api/'') todo_a) ''done'' ''id'' 2 10 True False) = []"
proof -
  let ?s = "replaceOrAdd (new_TodoService ''/api/'') todo_a"
  have h: "0 < length (items ?s)" by (simp add: items_one)
  have r: "http ?s = []"
    by (simp add: replaceOrAdd_def Let_def set_items_def items_push_def items_assign_def
        new_TodoService_def new_StoreService_def)
  from load_useCache_noop [OF h, of "''done''" "''id''" 2 10 False] h r
  show ?thesis by (simp add: Let_def)
qed

text \<open>
  Claim C5. When the response of a \<open>load\<close> with \<^verbatim>\<open>append = false\<close> is the empty
  list, the cache becomes a new empty array, and the subject of empty results emits
  after the subject of the cache has emitted, before the loading flag is reset.
\<close>

theorem load_replace_empty:
  "(let s' = load_response False s (Inr []) in
      items s' = [] \<and> itemsSubject s' = next_addr s \<and> heap s' (next_addr s) = [] \<and>
      emitted s' = emitted s @ [Items_next (next_addr s), NoLoadResults_next, Loading_next False])"
  by (simp add: load_response_def Let_def set_items_def next_event_def set_loading_def items_def)

theorem load_replace_empty_witness:
  "items (replaceOrAdd (new_TodoService ''/api/'') todo_a) = [todo_a] \<and>
   items (load_response False (replaceOrAdd (new_TodoService ''/api/'') todo_a) (Inr [])) = [] \<and>
   emitted (load_response False (replaceOrAdd (new_TodoService ''/api/'') todo_a) (Inr [])) =
     [Items_next 1, Items_next 2, NoLoadResults_next, Loading_next False]"
  using load_replace_empty [of "replaceOrAdd (new_TodoService ''/api/'') todo_a"]
  by (simp add: Let_def items_one emitted_replaceOrAdd next_addr_replaceOrAdd new_TodoService_fields)

subsection \<open>\<^verbatim>\<open>get\<close>\<close>

text \<open>
  Claim C6. \<open>get\<close> called with \<^verbatim>\<open>null\<close> sets the selection to none and does nothing
  else: no request, no change of the loading flag, the cache unchanged.
\<close>

theorem get_null:
  "(let s' = get s JNull in
      selected s' = None \<and> selectedSubject s' = None \<and>
      emitted s' = emitted s @ [Selected_next None] \<and>
      http s' = http s \<and> loadingSubject s' = loadingSubject s \<and>
      heap s' = heap s \<and> itemsSubject s' = itemsSubject s \<and> items s' = items s)"
  by (simp add: get_def set_selected_def selected_def items_def)

theorem get_null_witness:
  "selected (select (new_TodoService ''/api/'') (Some todo_a)) = Some todo_a \<and>
   selected (get (select (new_TodoService ''/api/'') (Some todo_a)) JNull) = None \<and>
   http (get (select (new_TodoService ''/api/'') (Some todo_a)) JNull) = [] \<and>
   \<not> loadingSubject (get (select (new_TodoService ''/api/'') (Some todo_a)) JNull)"
  using get_null [of "select (new_TodoService ''/api/'') (Some todo_a)"]
  by (simp add: Let_def select_def set_selected_def selected_def new_TodoService_fields)

text \<open>
  Claim C10. \<open>get\<close> called with \<^verbatim>\<open>undefined\<close> keeps the selection, sets the loading
  flag and issues a \<^verbatim>\<open>GET\<close> request to the resource's URL followed by
  \<^verbatim>\<open>undefined\<close>; so does every identifier other than \<^verbatim>\<open>null\<close>, with its own
  string, and \<^verbatim>\<open>null\<close> alone clears the selection without a request.
\<close>

theorem get_undefined:
  "(let s' = get s JUndefined in
      selectedSubject s' = selectedSubject s \<and> loadingSubject s' \<and>
      emitted s' = emitted s @ [Loading_next True] \<and>
      http s' = http s @ [\<lparr>verb = GET, target = url (settings s) @ ''undefined'', payload = None\<rparr>]) \<and>
   (\<forall>ident. ident \<noteq> JNull \<longrightarrow>
      (let s' = get s ident in
         selectedSubject s' = selectedSubject s \<and> loadingSubject s' \<and>
         emitted s' = emitted s @ [Loading_next True] \<and>
         http s' = http s @ [\<lparr>verb = GET, target = url (settings s) @ to_string ident,
                               payload = None\<rparr>])) \<and>
   (let s' = get s JNull in
      selectedSubject s' = None \<and> loadingSubject s' = loadingSubject s \<and> http s' = http s)"
  by (simp add: get_def Let_def set_loading_def http_request_def set_selected_def)

theorem get_undefined_witness:
  "http (get (new_TodoService ''/api/'') JUndefined) =
     [\<lparr>verb = GET, target = ''/api/todoundefined'', payload = None\<rparr>] \<and>
   loadingSubject (get (new_TodoService ''/api/'') JUndefined) \<and>
   selectedSubject (get (select (new_TodoService ''/api/'') (Some todo_a)) JUndefined) = Some todo_a \<and>
   JStr ''7'' \<noteq> JNull \<and>
   http (get (new_TodoService ''/api/'') (JStr ''7'')) =
     [\<lparr>verb = GET, target = ''/api/todo7'', payload = None\<rparr>]"
proof -
  let ?s = "new_TodoService ''/api/''"
  have g: "JStr ''7'' \<noteq> JNull" by simp
  from get_undefined [of ?s] g
  have a: "http (get ?s JUndefined) = [\<lparr>verb = GET, target = ''/api/todoundefined'', payload = None\<rparr>]"
    and b: "loadingSubject (get ?s JUndefined)"
    and c: "http (get ?s (JStr ''7'')) = [\<lparr>verb = GET, target = ''/api/todo7'', payload = None\<rparr>]"
    by (simp_all add: Let_def new_TodoService_fields)
  from get_undefined [of "select ?s (Some todo_a)"]
  have d: "selectedSubject (get (select ?s (Some todo_a)) JUndefined) = Some todo_a"
    by (simp add: Let_def select_def set_selected_def)
  from a b d g c show ?thesis by (intro conjI)
qed

subsection \<open>\<^verbatim>\<open>delete\<close>\<close>

text \<open>
  Claim C7. \<open>delete\<close> sets the deleting flag and issues its request without touching
  the cache. When the request fails, the response leaves the cache and its array as
  they are, emits the error it received once on the error subject shared with
  \<open>get\<close>, \<open>add\<close> and \<open>update\<close>, and then resets the deleting flag.
\<close>

theorem delete_failure:
  "(let s1 = delete s0 val in
      deletingSubject s1 \<and> items s1 = items s0 \<and>
      http s1 = http s0 @ [\<lparr>verb = DELETE, target = url (settings s0) @ to_string (uniqueId val),
                              payload = None\<rparr>]) \<and>
   (let s' = delete_response val s (Inl e) in
      items s' = items s \<and> heap s' = heap s \<and> itemsSubject s' = itemsSubject s \<and>
      \<not> deletingSubject s' \<and> \<not> deleting s' \<and>
      emitted s' = emitted s @ [GetError_next e, Deleting_next False] \<and>
      uncaught s' = uncaught s @ [''Error deleting '' @ itemName (settings s)])"
  by (simp add: delete_def delete_response_def Let_def set_deleting_def http_request_def
      set_getError_def throwError_def items_def deleting_def)

theorem delete_failure_witness:
  "items (foldl replaceOrAdd (new_TodoService ''/api/'') [todo_a, todo_b]) = [todo_a, todo_b] \<and>
   deletingSubject (delete (foldl replaceOrAdd (new_TodoService ''/api/'') [todo_a, todo_b]) todo_b) \<and>
   items (delete_response todo_b
           (delete (foldl replaceOrAdd (new_TodoService ''/api/'') [todo_a, todo_b]) todo_b)
           (Inl (HttpErrorResponse 500 ''Internal Server Error''))) = [todo_a, todo_b] \<and>
   \<not> deletingSubject (delete_response todo_b
           (delete (foldl replaceOrAdd (new_TodoService ''/api/'') [todo_a, todo_b]) todo_b)
           (Inl (HttpErrorResponse 500 ''Internal Server Error''))) \<and>
   emitted (delete_response todo_b
           (delete (foldl replaceOrAdd (new_TodoService ''/api/'') [todo_a, todo_b]) todo_b)
           (Inl (HttpErrorResponse 500 ''Internal Server Error''))) =
     [Items_next 1, Items_next 2, Deleting_next True,
      GetError_next (HttpErrorResponse 500 ''Internal Server Error''), Deleting_next False]"
proof -
  let ?s = "foldl replaceOrAdd (new_TodoService ''/api/'') [todo_a, todo_b]"
  let ?e = "HttpErrorResponse 500 ''Internal Server Error''"
  have i: "items ?s = [todo_a, todo_b]"
    by (simp add: items_replaceOrAdd items_new_TodoService uniqueId_def todo_a_def todo_b_def)
  have em: "emitted (delete ?s todo_b) = [Items_next 1, Items_next 2, Deleting_next True]"
    by (simp add: delete_def Let_def http_request_def set_deleting_def emitted_replaceOrAdd
        next_addr_replaceOrAdd new_TodoService_fields)
  from delete_failure [of ?s todo_b "delete ?s todo_b" ?e] i em
  show ?thesis by (simp add: Let_def)
qed

subsection \<open>The loading flag\<close>

text \<open>
  Claim C8. A \<open>load\<close> that is not answered from the cache, a \<open>get\<close> of an identifier
  other than \<^verbatim>\<open>null\<close>, an \<open>add\<close> and an \<open>update\<close> set the loading flag and issue
  one request. The response of each, successful or failed, resets the loading flag as
  its last action.
\<close>

theorem loading_reset:
  "(\<not> (useCache \<and> 0 < length (items s)) \<longrightarrow>
      (let s' = load s filter_p order_p page pageSize useCache append_p in
         loadingSubject s' \<and> emitted s' = emitted s @ [Loading_next True] \<and>
         length (http s') = Suc (length (http s)))) \<and>
   (ident \<noteq> JNull \<longrightarrow>
      (let s' = get s ident in
         loadingSubject s' \<and> emitted s' = emitted s @ [Loading_next True] \<and>
         length (http s') = Suc (length (http s)))) \<and>
   (let s' = add s val in
      loadingSubject s' \<and> emitted s' = emitted s @ [Loading_next True] \<and>
      length (http s') = Suc (length (http s))) \<and>
   (let s' = update s val in
      loadingSubject s' \<and> emitted s' = emitted s @ [Loading_next True] \<and>
      length (http s') = Suc (length (http s))) \<and>
   (let s' = load_response append_p sr (Inr res) in
      \<not> loadingSubject s' \<and> last (emitted s') = Loading_next False) \<and>
   (let s' = load_response append_p sr (Inl e) in
      \<not> loadingSubject s' \<and> last (emitted s') = Loading_next False) \<and>
   (let s' = get_response sr (Inr r) in
      \<not> loadingSubject s' \<and> last (emitted s') = Loading_next False) \<and>
   (let s' = get_response sr (Inl e) in
      \<not> loadingSubject s' \<and> last (emitted s') = Loading_next False) \<and>
   (let s' = add_response sr (Inr r) in
      \<not> loadingSubject s' \<and> last (emitted s') = Loading_next False) \<and>
   (let s' = add_response sr (Inl e) in
      \<not> loadingSubject s' \<and> last (emitted s') = Loading_next False) \<and>
   (let s' = update_response sr (Inr r) in
      \<not> loadingSubject s' \<and> last (emitted s') = Loading_next False) \<and>
   (let s' = update_response sr (Inl e) in
      \<not> loadingSubject s' \<and> last (emitted s') = Loading_next False)"
proof -
  have fin: "\<not> loadingSubject (set_loading t False) \<and>
             last (emitted (set_loading t False)) = Loading_next False" for t
    by (simp add: set_loading_def)
  have start: "loadingSubject (http_request (set_loading t True) m u b) \<and>
       emitted (http_request (set_loading t True) m u b) = emitted t @ [Loading_next True] \<and>
       length (http (http_request (set_loading t True) m u b)) = Suc (length (http t))" for t m u b
    by (simp add: set_loading_def http_request_def)
  show ?thesis
    unfolding Let_def load_def get_def add_def update_def
      load_response_def get_response_def add_response_def update_response_def
    by (intro conjI impI fin) (simp_all only: start [simplified Let_def] if_False simp_thms)
qed

theorem loading_reset_witness:
  "\<not> (True \<and> 0 < length (items (new_TodoService ''/api/''))) \<and>
   loadingSubject (load (new_TodoService ''/api/'') '''' '''' 0 0 True False) \<and>
   \<not> loadingSubject (load_response False (load (new_TodoService ''/api/'') '''' '''' 0 0 True False)
        (Inl (HttpErrorResponse 404 ''Not Found''))) \<and>
   \<not> loadingSubject (load_response False (load (new_TodoService ''/api/'') '''' '''' 0 0 True False)
        (Inr [todo_a])) \<and>
   JNum 1 \<noteq> JNull \<and>
   loadingSubject (get (new_TodoService ''/api/'') (JNum 1)) \<and>
   \<not> loadingSubject (get_response (get (new_TodoService ''/api/'') (JNum 1))
        (Inl (HttpErrorResponse 404 ''Not Found'')))"
proof -
  let ?s = "new_TodoService ''/api/''"
  let ?e = "HttpErrorResponse 404 ''Not Found''"
  have h: "\<not> (True \<and> 0 < length (items ?s))" by (simp add: items_new_TodoService)
  have g: "JNum 1 \<noteq> JNull" by simp
  from loading_reset [where useCache = True and s = ?s and filter_p = "''''" and order_p = "''''"
      and page = 0 and pageSize = 0 and append_p = False and ident = "JNum 1"] h g
  have a: "loadingSubject (load ?s '''' '''' 0 0 True False)"
    and b: "loadingSubject (get ?s (JNum 1))"
    by (simp_all add: Let_def)
  from loading_reset [where sr = "load ?s '''' '''' 0 0 True False" and append_p = False
      and res = "[todo_a]" and e = ?e]
  have c: "\<not> loadingSubject (load_response False (load ?s '''' '''' 0 0 True False) (Inl ?e))"
    and d: "\<not> loadingSubject (load_response False (load ?s '''' '''' 0 0 True False) (Inr [todo_a]))"
    by (simp_all add: Let_def)
  from loading_reset [where sr = "get ?s (JNum 1)" and e = ?e]
  have e: "\<not> loadingSubject (get_response (get ?s (JNum 1)) (Inl ?e))"
    by (simp add: Let_def)
  from h a c d g b e show ?thesis by (intro conjI)
qed

subsection \<open>\<^verbatim>\<open>addTodo\<close>\<close>

lemma number_add_exact: "\<bar>x + y\<bar> \<le> 2 ^ 53 \<Longrightarrow> number_add x y = x + y"
  by (simp add: number_add_def round_binary64_def Let_def)

lemma number_add_limit:
  "number_add 9007199254740991 1 = 9007199254740992 \<and>
   number_add 9007199254740992 1 = 9007199254740992"
  by code_simp

text \<open>Beyond \<open>2 ^ 53\<close> the sum is rounded: to the nearer neighbour, and on a tie to the
  one with the even significand.\<close>

lemma number_add_rounds:
  "number_add 9007199254740994 1 = 9007199254740996 \<and>
   number_add 9007199254740996 1 = 9007199254740996 \<and>
   number_add (- 9007199254740994) 1 = - 9007199254740992 \<and>
   number_add (- 9007199254740992) 1 = - 9007199254740991 \<and>
   number_add 18014398509481984 1 = 18014398509481984 \<and>
   round_binary64 18014398509481983 = 18014398509481984 \<and>
   round_binary64 18014398509481981 = 18014398509481980"
  by code_simp

lemma addTodo_unfold:
  "addTodo s t =
     next_event
       (replaceOrAdd (s\<lparr>nextId := number_add (nextId s) 1\<rparr>)
          (t\<lparr>id_t := JNum (number_add (nextId s) 1)\<rparr>))
       (CreateSuccess_next (t\<lparr>id_t := JNum (number_add (nextId s) 1)\<rparr>))"
  by (simp add: addTodo_def getNextId_def Let_def)

lemma items_nextId_update: "items (s\<lparr>nextId := n\<rparr>) = items s"
  by (simp add: items_def)

lemma items_addTodo:
  "items (addTodo s t) =
     items (replaceOrAdd (s\<lparr>nextId := number_add (nextId s) 1\<rparr>)
              (t\<lparr>id_t := JNum (number_add (nextId s) 1)\<rparr>))"
  by (simp add: addTodo_unfold items_next_event)

lemma items_addTodo_fresh:
  assumes "JNum (number_add (nextId s) 1) \<notin> set (map uniqueId (items s))"
  shows "items (addTodo s t) = items s @ [t\<lparr>id_t := JNum (number_add (nextId s) 1)\<rparr>]"
proof -
  let ?s1 = "s\<lparr>nextId := number_add (nextId s) 1\<rparr>"
  let ?t1 = "t\<lparr>id_t := JNum (number_add (nextId s) 1)\<rparr>"
  have "uniqueId ?t1 \<notin> set (map uniqueId (items ?s1))"
    using assms by (simp add: items_nextId_update uniqueId_def)
  then have "items (replaceOrAdd ?s1 ?t1) = items ?s1 @ [?t1]"
    by (rule replaceOrAdd_append)
  then show ?thesis
    by (simp add: items_addTodo items_nextId_update)
qed

lemma nextId_addTodo: "nextId (addTodo s t) = number_add (nextId s) 1"
  by (simp add: addTodo_unfold next_event_def nextId_replaceOrAdd)

lemma emitted_addTodo:
  "emitted (addTodo s t) =
     emitted s @ [Items_next (next_addr s),
                  CreateSuccess_next (t\<lparr>id_t := JNum (number_add (nextId s) 1)\<rparr>)]"
  by (simp add: addTodo_unfold next_event_def emitted_replaceOrAdd)

lemma next_addr_addTodo: "next_addr (addTodo s t) = Suc (next_addr s)"
  by (simp add: addTodo_unfold next_event_def next_addr_replaceOrAdd)

text \<open>
  Claim C9, as the code has it. Let the cache be empty and let the counter and the two
  numbers after it lie between \<open>- (2 ^ 53)\<close> and \<open>2 ^ 53\<close>, where the increment is
  exact (a new service starts at \<open>1\<close>). Then two calls of \<open>addTodo\<close> give the two
  entities the next two values of the counter, the second greater than the first, and
  leave a cache of length two that holds them in the order of the calls; each call
  emits the entity, with its identifier, on the subject of created entities.
\<close>

theorem addTodo_twice:
  assumes "items s = []" and "- (2 ^ 53) \<le> nextId s" and "nextId s + 2 \<le> 2 ^ 53"
  shows "(let s1 = addTodo s t1; s2 = addTodo s1 t2;
              n1 = nextId s + 1; n2 = nextId s + 2
          in items s1 = [t1\<lparr>id_t := JNum n1\<rparr>] \<and>
             items s2 = [t1\<lparr>id_t := JNum n1\<rparr>, t2\<lparr>id_t := JNum n2\<rparr>] \<and>
             length (items s2) = 2 \<and>
             map uniqueId (items s2) = [JNum n1, JNum n2] \<and> n1 < n2 \<and>
             nextId s1 = n1 \<and> nextId s2 = n2 \<and>
             emitted s1 = emitted s @ [Items_next (next_addr s),
                                       CreateSuccess_next (t1\<lparr>id_t := JNum n1\<rparr>)] \<and>
             emitted s2 = emitted s1 @ [Items_next (next_addr s1),
                                        CreateSuccess_next (t2\<lparr>id_t := JNum n2\<rparr>)])"
proof -
  define s1 where "s1 = addTodo s t1"
  define s2 where "s2 = addTodo s1 t2"
  from assms(2,3) have "\<bar>nextId s + 1\<bar> \<le> 2 ^ 53" by simp
  then have a1: "number_add (nextId s) 1 = nextId s + 1" by (rule number_add_exact)
  from assms(2,3) have "\<bar>(nextId s + 1) + 1\<bar> \<le> 2 ^ 53" by simp
  then have a2: "number_add (nextId s + 1) 1 = nextId s + 2"
    by (simp add: number_add_exact)
  have i1: "items s1 = [t1\<lparr>id_t := JNum (nextId s + 1)\<rparr>]"
    unfolding s1_def using assms(1) by (simp add: items_addTodo_fresh a1)
  have n1: "nextId s1 = nextId s + 1"
    unfolding s1_def by (simp add: nextId_addTodo a1)
  have "JNum (number_add (nextId s1) 1) \<notin> set (map uniqueId (items s1))"
    unfolding i1 n1 a2 by (simp add: uniqueId_def)
  then have "items s2 = items s1 @ [t2\<lparr>id_t := JNum (number_add (nextId s1) 1)\<rparr>]"
    unfolding s2_def by (rule items_addTodo_fresh)
  then have i2: "items s2 = [t1\<lparr>id_t := JNum (nextId s + 1)\<rparr>, t2\<lparr>id_t := JNum (nextId s + 2)\<rparr>]"
    unfolding i1 n1 a2 by simp
  have n2: "nextId s2 = nextId s + 2"
    unfolding s2_def by (simp add: nextId_addTodo n1 a2)
  have e1: "emitted s1 = emitted s @ [Items_next (next_addr s),
                                       CreateSuccess_next (t1\<lparr>id_t := JNum (nextId s + 1)\<rparr>)]"
    unfolding s1_def by (simp add: emitted_addTodo a1)
  have e2: "emitted s2 = emitted s1 @ [Items_next (next_addr s1),
                                        CreateSuccess_next (t2\<lparr>id_t := JNum (nextId s + 2)\<rparr>)]"
    unfolding s2_def by (simp add: emitted_addTodo n1 a2)
  have ids: "map uniqueId (items s2) = [JNum (nextId s + 1), JNum (nextId s + 2)]"
    unfolding i2 by (simp add: uniqueId_def)
  have len: "length (items s2) = 2" unfolding i2 by simp
  have lt: "nextId s + 1 < nextId s + 2" by simp
  show ?thesis
    unfolding Let_def s1_def [symmetric] s2_def [symmetric]
    by (intro conjI i1 i2 len ids lt n1 n2 e1 e2)
qed

theorem addTodo_twice_witness:
  "items (new_TodoService ''/api/'') = [] \<and>
   - (2 ^ 53) \<le> nextId (new_TodoService ''/api/'') \<and>
   nextId (new_TodoService ''/api/'') + 2 \<le> 2 ^ 53 \<and>
   items (addTodo (addTodo (new_TodoService ''/api/'') buy_milk) buy_milk) =
     [\<lparr>id_t = JNum 2, completed = False, text_t = ''buy milk''\<rparr>,
      \<lparr>id_t = JNum 3, completed = False, text_t = ''buy milk''\<rparr>] \<and>
   length (items (addTodo (addTodo (new_TodoService ''/api/'') buy_milk) buy_milk)) = 2"
proof -
  have h: "items (new_TodoService ''/api/'') = []" by (rule items_new_TodoService)
  have n: "nextId (new_TodoService ''/api/'') = 1"
    by (simp add: new_TodoService_def new_StoreService_def)
  have lo: "- (2 ^ 53) \<le> nextId (new_TodoService ''/api/'')" unfolding n by simp
  have hi: "nextId (new_TodoService ''/api/'') + 2 \<le> 2 ^ 53" unfolding n by simp
  from addTodo_twice [OF h lo hi, of buy_milk buy_milk] h lo hi show ?thesis
    unfolding Let_def n by (simp add: buy_milk_def new_Todo_def)
qed

text \<open>
  Without the bound the two identifiers need not differ. At the counter
  \<open>9007199254740991 = 2 ^ 53 - 1\<close> the first call assigns \<open>2 ^ 53\<close>, and so does the
  second, \<open>2 ^ 53 + 1\<close> being no binary64 number: \<open>replaceOrAdd\<close> finds the first entity
  under the identifier of the second and replaces it, and the cache has length one.
\<close>

theorem addTodo_twice_counterexample:
  "items ((new_TodoService ''/api/'')\<lparr>nextId := 9007199254740991\<rparr>) = [] \<and>
   (9007199254740991 :: int) = 2 ^ 53 - 1 \<and>
   emitted (addTodo (addTodo ((new_TodoService ''/api/'')\<lparr>nextId := 9007199254740991\<rparr>) todo_a) todo_b) =
     [Items_next 1, CreateSuccess_next (todo_a\<lparr>id_t := JNum 9007199254740992\<rparr>),
      Items_next 2, CreateSuccess_next (todo_b\<lparr>id_t := JNum 9007199254740992\<rparr>)] \<and>
   items (addTodo (addTodo ((new_TodoService ''/api/'')\<lparr>nextId := 9007199254740991\<rparr>) todo_a) todo_b) =
     [todo_b\<lparr>id_t := JNum 9007199254740992\<rparr>] \<and>
   length (items (addTodo (addTodo ((new_TodoService ''/api/'')\<lparr>nextId := 9007199254740991\<rparr>) todo_a) todo_b)) = 1"
proof -
  let ?s = "(new_TodoService ''/api/'')\<lparr>nextId := 9007199254740991\<rparr>"
  let ?s1 = "addTodo ?s todo_a"
  let ?s2 = "addTodo ?s1 todo_b"
  let ?a = "todo_a\<lparr>id_t := JNum 9007199254740992\<rparr>"
  let ?b = "todo_b\<lparr>id_t := JNum 9007199254740992\<rparr>"
  have i0: "items ?s = []"
    by (simp add: items_nextId_update items_new_TodoService)
  have p: "(9007199254740991 :: int) = 2 ^ 53 - 1" by simp
  have a1: "number_add 9007199254740991 1 = 9007199254740992"
    using number_add_limit by (rule conjunct1)
  have a2: "number_add 9007199254740992 1 = 9007199254740992"
    using number_add_limit by (rule conjunct2)
  have n0: "nextId ?s = 9007199254740991" by simp
  have n1: "nextId ?s1 = 9007199254740992"
    by (simp only: nextId_addTodo n0 a1)
  have i1: "items ?s1 = [?a]"
    using items_addTodo_fresh [of ?s todo_a] by (simp add: i0 a1)
  have i2: "items ?s2 = [?b]"
    by (simp add: items_addTodo [of ?s1] n1 a2 items_replaceOrAdd items_nextId_update i1 uniqueId_def)
  have e1: "emitted ?s1 = [Items_next 1, CreateSuccess_next ?a]"
    by (simp add: emitted_addTodo a1 new_TodoService_fields)
  have ad: "next_addr ?s1 = 2"
    by (simp add: next_addr_addTodo new_TodoService_fields)
  have e2: "emitted ?s2 = [Items_next 1, CreateSuccess_next ?a, Items_next 2, CreateSuccess_next ?b]"
    by (simp add: emitted_addTodo [of ?s1] n1 a2 e1 ad)
  have len: "length (items ?s2) = 1" unfolding i2 by simp
  from i0 p e2 i2 len show ?thesis by (intro conjI)
qed

end
